theory Spec2Isabelle
  imports Main "HOL-Library.Word" "HOL-Library.Sublist" "HOL-Library.Code_Target_Nat"
begin

text \<open>
  A server for a subset of the Redis protocol. The theory follows its two files: the
  codec of resp.go (\<open>ParseRESP\<close>, \<open>SerializeRESP\<close>) and the connection loop and
  command handlers of server.go. It is written for a 64-bit target, where Go's \<open>int\<close>
  has 64 bits. Each function of the Go library that the code calls has a section of its
  own, which states the behaviour it is given here.
\<close>

section \<open>RESP values\<close>

text \<open>
  Go strings are byte sequences; they are modelled as \<open>string\<close> (a list of 8-bit
  characters). The struct \<open>RESPValue\<close> of resp.go carries all five fields at once,
  whatever its type tag; the slice of pointers \<open>Array\<close> is a list of values (a nil
  slice and an empty slice are both the empty list: the code only takes \<open>len\<close> of it
  and ranges over it).
\<close>

definition RESP_SIMPLE_STRING :: char where "RESP_SIMPLE_STRING = CHR ''+''"
definition RESP_ERROR :: char where "RESP_ERROR = CHR ''-''"
definition RESP_INTEGER :: char where "RESP_INTEGER = CHR '':''"
definition RESP_BULK_STRING :: char where "RESP_BULK_STRING = CHR ''$''"
definition RESP_ARRAY :: char where "RESP_ARRAY = CHR ''*''"

lemmas RESP_tags =
  RESP_SIMPLE_STRING_def RESP_ERROR_def RESP_INTEGER_def RESP_BULK_STRING_def RESP_ARRAY_def

datatype RESPValue =
  RESPValue (Type: char) (Str: string) (Num: "64 word") (IsNull: bool) (Array: "RESPValue list")

definition NewRESPValue :: "char \<Rightarrow> RESPValue" where
  "NewRESPValue respType = RESPValue respType [] 0 False []"

fun set_Str :: "string \<Rightarrow> RESPValue \<Rightarrow> RESPValue" where
  "set_Str s (RESPValue t _ n b a) = RESPValue t s n b a"

fun set_Num :: "64 word \<Rightarrow> RESPValue \<Rightarrow> RESPValue" where
  "set_Num n (RESPValue t s _ b a) = RESPValue t s n b a"

fun set_IsNull :: "bool \<Rightarrow> RESPValue \<Rightarrow> RESPValue" where
  "set_IsNull b (RESPValue t s n _ a) = RESPValue t s n b a"

fun set_Array :: "RESPValue list \<Rightarrow> RESPValue \<Rightarrow> RESPValue" where
  "set_Array a (RESPValue t s n b _) = RESPValue t s n b a"

section \<open>Decimal formatting (strconv.Itoa, strconv.FormatInt)\<close>

definition digit_char :: "nat \<Rightarrow> char" where
  "digit_char d = char_of (48 + d)"

fun digits :: "nat \<Rightarrow> string" where
  "digits n = (if n < 10 then [digit_char n] else digits (n div 10) @ [digit_char (n mod 10)])"

declare digits.simps [simp del]

definition FormatInt :: "int \<Rightarrow> string" where
  "FormatInt i = (if i < 0 then CHR ''-'' # digits (nat (- i)) else digits (nat i))"

definition Itoa :: "nat \<Rightarrow> string" where
  \<comment> \<open>only ever applied to a \<open>len\<close>, which is never negative\<close>
  "Itoa n = FormatInt (int n)"

section \<open>SerializeRESP\<close>

definition CR :: char where "CR = CHR 0x0D"
definition LF :: char where "LF = CHR 0x0A"
definition CRLF :: string where "CRLF = [CR, LF]"

fun SerializeRESP :: "RESPValue \<Rightarrow> string" where
  "SerializeRESP (RESPValue t s n isnull arr) =
    (if t = RESP_SIMPLE_STRING then RESP_SIMPLE_STRING # s @ CRLF
     else if t = RESP_ERROR then RESP_ERROR # s @ CRLF
     else if t = RESP_INTEGER then RESP_INTEGER # FormatInt (sint n) @ CRLF
     else if t = RESP_BULK_STRING then
       RESP_BULK_STRING #
         (if isnull then ''-1'' @ CRLF
          else Itoa (length s) @ CRLF @ s @ CRLF)
     else if t = RESP_ARRAY then
       RESP_ARRAY # Itoa (length arr) @ CRLF @ concat (map SerializeRESP arr)
     else [])"

section \<open>Errors and outcomes\<close>

text \<open>
  Go errors are values with a message. \<open>NumError\<close> is strconv's error (the function
  name, the text that was parsed, and the reason); the other constructors are the errors
  of io and the \<open>fmt.Errorf\<close> calls of ParseRESP, in the order they appear there.
  A run-time panic is not an error value: it is the third outcome of a call.
\<close>

datatype numerr = ErrSyntax | ErrRange

datatype error =
    EOF
  | ErrUnexpectedEOF
  | NumError string string numerr
  | EmptyLine
  | InvalidInteger error
  | InvalidBulkLength error
  | BulkRead error
  | BulkTerminator error
  | InvalidArrayLength error
  | ArrayElement nat error
  | UnknownType char

datatype 'a result = Ok 'a | Err error | Panic

section \<open>The reader (bufio.Reader over the connection)\<close>

text \<open>
  The reader is the list of bytes the connection will still deliver before its end of
  stream. \<open>ReadString\<close> returns the bytes up to and including the first delimiter;
  when the stream ends first it returns what was left together with \<open>io.EOF\<close>.
  \<open>ReadFull\<close> fills a buffer of \<open>n\<close> bytes: \<open>io.EOF\<close> when nothing at all could
  be read, \<open>io.ErrUnexpectedEOF\<close> when the stream ended part-way, and no error for a
  buffer of length 0. A read fails in no other way than by the end of the stream.
\<close>

definition ReadString :: "char \<Rightarrow> string \<Rightarrow> (string \<times> error option) \<times> string" where
  "ReadString delim reader =
    (if delim \<in> set reader
     then ((takeWhile (\<lambda>c. c \<noteq> delim) reader @ [delim], None),
           tl (dropWhile (\<lambda>c. c \<noteq> delim) reader))
     else ((reader, Some EOF), []))"

definition ReadFull :: "nat \<Rightarrow> string \<Rightarrow> (string \<times> error option) \<times> string" where
  "ReadFull n reader =
    (if n \<le> length reader then ((take n reader, None), drop n reader)
     else if reader = [] then (([], Some EOF), [])
     else ((reader, Some ErrUnexpectedEOF), []))"

section \<open>strings.TrimSpace\<close>

text \<open>
  \<open>strings.TrimSpace\<close> removes all leading and trailing white space, as defined by
  Unicode, from a string that it reads as UTF-8. A white-space code point stands at the
  front (at the end) of the bytes exactly when its UTF-8 encoding is a prefix (a suffix)
  of them: an ill-formed sequence decodes to U+FFFD with width 1, which is not white
  space, and decoding backwards accepts a code point only when its encoding ends the
  string. The code points with the White_Space property are U+0009..U+000D, U+0020,
  U+0085, U+00A0, U+1680, U+2000..U+200A, U+2028, U+2029, U+202F, U+205F and U+3000.
\<close>

definition white_space :: "string list" where
  "white_space =
    [[CHR 0x09], [CHR 0x0A], [CHR 0x0B], [CHR 0x0C], [CHR 0x0D], [CHR 0x20],
     [CHR 0xC2, CHR 0x85], [CHR 0xC2, CHR 0xA0],
     [CHR 0xE1, CHR 0x9A, CHR 0x80],
     [CHR 0xE2, CHR 0x80, CHR 0x80], [CHR 0xE2, CHR 0x80, CHR 0x81],
     [CHR 0xE2, CHR 0x80, CHR 0x82], [CHR 0xE2, CHR 0x80, CHR 0x83],
     [CHR 0xE2, CHR 0x80, CHR 0x84], [CHR 0xE2, CHR 0x80, CHR 0x85],
     [CHR 0xE2, CHR 0x80, CHR 0x86], [CHR 0xE2, CHR 0x80, CHR 0x87],
     [CHR 0xE2, CHR 0x80, CHR 0x88], [CHR 0xE2, CHR 0x80, CHR 0x89],
     [CHR 0xE2, CHR 0x80, CHR 0x8A],
     [CHR 0xE2, CHR 0x80, CHR 0xA8], [CHR 0xE2, CHR 0x80, CHR 0xA9],
     [CHR 0xE2, CHR 0x80, CHR 0xAF],
     [CHR 0xE2, CHR 0x81, CHR 0x9F],
     [CHR 0xE3, CHR 0x80, CHR 0x80]]"

definition space_prefix :: "string \<Rightarrow> string option" where
  "space_prefix s = find (\<lambda>e. prefix e s) white_space"

definition space_suffix :: "string \<Rightarrow> string option" where
  "space_suffix s = find (\<lambda>e. suffix e s) white_space"

lemma white_space_nonempty: "e \<in> set white_space \<Longrightarrow> e \<noteq> []"
  by (auto simp: white_space_def)

lemma space_prefix_Some: "space_prefix s = Some e \<Longrightarrow> e \<noteq> [] \<and> prefix e s"
  by (auto simp: space_prefix_def find_Some_iff white_space_nonempty)

lemma space_suffix_Some: "space_suffix s = Some e \<Longrightarrow> e \<noteq> [] \<and> suffix e s"
  by (auto simp: space_suffix_def find_Some_iff white_space_nonempty)

function TrimLeftSpace :: "string \<Rightarrow> string" where
  "TrimLeftSpace s =
    (case space_prefix s of None \<Rightarrow> s | Some e \<Rightarrow> TrimLeftSpace (drop (length e) s))"
  by pat_completeness auto
termination
proof (relation "measure length")
  fix s e assume "space_prefix s = Some e"
  then have "e \<noteq> []" "prefix e s" using space_prefix_Some by blast+
  then show "(drop (length e) s, s) \<in> measure length"
    by (cases s) (auto simp: prefix_def)
qed simp

function TrimRightSpace :: "string \<Rightarrow> string" where
  "TrimRightSpace s =
    (case space_suffix s of None \<Rightarrow> s
     | Some e \<Rightarrow> TrimRightSpace (take (length s - length e) s))"
  by pat_completeness auto
termination
proof (relation "measure length")
  fix s e assume "space_suffix s = Some e"
  then have "e \<noteq> []" "suffix e s" using space_suffix_Some by blast+
  then show "(take (length s - length e) s, s) \<in> measure length"
    by (cases s) (auto simp: suffix_def)
qed simp

declare TrimLeftSpace.simps [simp del] TrimRightSpace.simps [simp del]

definition TrimSpace :: "string \<Rightarrow> string" where
  "TrimSpace s = TrimRightSpace (TrimLeftSpace s)"

section \<open>strconv.ParseInt and strconv.Atoi\<close>

text \<open>
  \<open>ParseUint\<close> in base 10 with 64 bits: the empty text and any byte that is not a
  decimal digit are syntax errors; a value above \<open>2^64 - 1\<close> is a range error, raised
  at the digit that exceeds it. \<open>ParseInt\<close> takes one optional sign off and checks the
  magnitude against \<open>2^63\<close>. \<open>Atoi\<close> is \<open>ParseInt\<close> for Go's \<open>int\<close>, here
  64 bits wide, with its own name in the error.
\<close>

definition is_digit :: "char \<Rightarrow> bool" where
  "is_digit c \<longleftrightarrow> 48 \<le> (of_char c :: nat) \<and> (of_char c :: nat) \<le> 57"

definition digit_val :: "char \<Rightarrow> nat" where
  "digit_val c = of_char c - 48"

fun ParseUint_loop :: "nat \<Rightarrow> string \<Rightarrow> numerr + nat" where
  "ParseUint_loop n [] = Inr n"
| "ParseUint_loop n (c # cs) =
    (if \<not> is_digit c then Inl ErrSyntax
     else if n * 10 + digit_val c > 2 ^ 64 - 1 then Inl ErrRange
     else ParseUint_loop (n * 10 + digit_val c) cs)"

definition ParseUint :: "string \<Rightarrow> numerr + nat" where
  "ParseUint s = (if s = [] then Inl ErrSyntax else ParseUint_loop 0 s)"

definition ParseInt_as :: "string \<Rightarrow> string \<Rightarrow> error + int" where
  "ParseInt_as fn s0 =
    (if s0 = [] then Inl (NumError fn s0 ErrSyntax)
     else
       let neg = (hd s0 = CHR ''-'');
           s = (if hd s0 = CHR ''+'' \<or> hd s0 = CHR ''-'' then tl s0 else s0)
       in case ParseUint s of
            Inl ErrSyntax \<Rightarrow> Inl (NumError fn s0 ErrSyntax)
          | Inl ErrRange \<Rightarrow> Inl (NumError fn s0 ErrRange)
          | Inr un \<Rightarrow>
              if \<not> neg \<and> un \<ge> 2 ^ 63 then Inl (NumError fn s0 ErrRange)
              else if neg \<and> un > 2 ^ 63 then Inl (NumError fn s0 ErrRange)
              else Inr (if neg then - int un else int un))"

definition ParseInt :: "string \<Rightarrow> error + int" where
  "ParseInt s = ParseInt_as ''ParseInt'' s"

definition Atoi :: "string \<Rightarrow> error + int" where
  "Atoi s = ParseInt_as ''Atoi'' s"

section \<open>make\<close>

text \<open>
  \<open>make([]T, n)\<close> panics at run time when \<open>n\<close> is negative or when \<open>n\<close> elements
  of \<open>T\<close> exceed what the runtime can address (\<open>maxAlloc\<close>, \<open>2^48\<close> bytes on the
  64-bit targets); \<open>makeslice elemsize n\<close> says that the allocation is accepted. Running
  out of physical memory below that limit is outside the model.
\<close>

definition maxAlloc :: nat where
  "maxAlloc = 2 ^ 48"

definition makeslice :: "nat \<Rightarrow> int \<Rightarrow> bool" where
  "makeslice elemsize n \<longleftrightarrow> 0 \<le> n \<and> nat n * elemsize \<le> maxAlloc"

section \<open>ParseRESP\<close>

text \<open>
  ParseRESP takes the reader and returns the outcome together with the reader as the
  call leaves it. The loop over the elements of an Array is \<open>ParseRESP_elems\<close>, with
  the index \<open>i\<close>, the bound \<open>count\<close> and the elements stored so far: the code
  allocates \<open>count\<close> slots and fills slot \<open>i\<close> in each turn, so that the slots
  filled are the first \<open>i\<close> at any time, and no slice is returned unless all are filled.
  The lemmas before the termination proof bound the reader a call returns by the reader
  it was given, on the domain of the function: every call that ParseRESP makes on the
  way, and every turn of the loop after a successful element, has fewer bytes left.
\<close>

function ParseRESP :: "string \<Rightarrow> RESPValue result \<times> string"
  and ParseRESP_elems ::
    "nat \<Rightarrow> nat \<Rightarrow> RESPValue list \<Rightarrow> string \<Rightarrow> RESPValue list result \<times> string"
where
  "ParseRESP reader =
    (case ReadString LF reader of
       ((line, Some err), reader1) \<Rightarrow> (Err err, reader1)
     | ((line, None), reader1) \<Rightarrow>
         let line = TrimSpace line in
         if length line = 0 then (Err EmptyLine, reader1)
         else
           let value = NewRESPValue (hd line) in
           if hd line = RESP_SIMPLE_STRING then (Ok (set_Str (tl line) value), reader1)
           else if hd line = RESP_ERROR then (Ok (set_Str (tl line) value), reader1)
           else if hd line = RESP_INTEGER then
             (case ParseInt (tl line) of
                Inl err \<Rightarrow> (Err (InvalidInteger err), reader1)
              | Inr num \<Rightarrow> (Ok (set_Num (word_of_int num) value), reader1))
           else if hd line = RESP_BULK_STRING then
             (case Atoi (tl line) of
                Inl err \<Rightarrow> (Err (InvalidBulkLength err), reader1)
              | Inr len \<Rightarrow>
                  if len = - 1 then (Ok (set_IsNull True value), reader1)
                  else if \<not> makeslice 1 len then (Panic, reader1)
                  else
                    (case ReadFull (nat len) reader1 of
                       ((data, Some err), reader2) \<Rightarrow> (Err (BulkRead err), reader2)
                     | ((data, None), reader2) \<Rightarrow>
                         (case ReadString LF reader2 of
                            ((term, Some err), reader3) \<Rightarrow> (Err (BulkTerminator err), reader3)
                          | ((term, None), reader3) \<Rightarrow> (Ok (set_Str data value), reader3))))
           else if hd line = RESP_ARRAY then
             (case Atoi (tl line) of
                Inl err \<Rightarrow> (Err (InvalidArrayLength err), reader1)
              | Inr count \<Rightarrow>
                  if count = - 1 then (Ok (set_IsNull True value), reader1)
                  else if \<not> makeslice 8 count then (Panic, reader1)
                  else
                    (case ParseRESP_elems 0 (nat count) [] reader1 of
                       (Ok elems, reader2) \<Rightarrow> (Ok (set_Array elems value), reader2)
                     | (Err err, reader2) \<Rightarrow> (Err err, reader2)
                     | (Panic, reader2) \<Rightarrow> (Panic, reader2)))
           else (Err (UnknownType (hd line)), reader1))"
| "ParseRESP_elems i count arr reader =
    (if i < count then
       (case ParseRESP reader of
          (Ok elem, reader') \<Rightarrow> ParseRESP_elems (i + 1) count (arr @ [elem]) reader'
        | (Err err, reader') \<Rightarrow> (Err (ArrayElement i err), reader')
        | (Panic, reader') \<Rightarrow> (Panic, reader'))
     else (Ok arr, reader))"
  by pat_completeness auto

lemma dropWhile_tl_shorter:
  "d \<in> set r \<Longrightarrow> length (dropWhile (\<lambda>c. c \<noteq> d) r) - Suc 0 < length r"
  using length_dropWhile_le [of "\<lambda>c. c \<noteq> d" r] by (cases r) auto

lemma ReadString_shorter:
  "ReadString d r = ((l, None), r1) \<Longrightarrow> length r1 < length r"
  by (auto simp: ReadString_def dropWhile_tl_shorter split: if_splits)

lemma ReadString_le:
  "ReadString d r = (x, r1) \<Longrightarrow> length r1 \<le> length r"
  using dropWhile_tl_shorter [of d r]
  by (auto simp: ReadString_def split: if_splits)

lemma ReadFull_le: "ReadFull n r = (x, r1) \<Longrightarrow> length r1 \<le> length r"
  by (auto simp: ReadFull_def split: if_splits)

lemma ReadString_error:
  "ReadString d r = ((l, Some e), r1) \<Longrightarrow> e = EOF \<and> l = r \<and> r1 = [] \<and> d \<notin> set r"
  by (auto simp: ReadString_def split: if_splits)

lemma ParseRESP_dom_le:
  "ParseRESP_ParseRESP_elems_dom (Inl r) \<Longrightarrow>
     length (snd (ParseRESP r)) \<le> length r \<and>
     (fst (ParseRESP r) \<noteq> Err EOF \<longrightarrow> length (snd (ParseRESP r)) < length r)"
  "ParseRESP_ParseRESP_elems_dom (Inr (i, count, arr, r)) \<Longrightarrow>
     length (snd (ParseRESP_elems i count arr r)) \<le> length r"
proof (induct rule: ParseRESP_ParseRESP_elems.pinduct)
  case (1 reader)
  note ps = ParseRESP.psimps [OF 1(1)]
  obtain line e reader1 where rs: "ReadString LF reader = ((line, e), reader1)"
    by (metis prod.exhaust)
  have le1: "length reader1 \<le> length reader" using ReadString_le[OF rs] .
  define l where "l = TrimSpace line"
  show ?case
  proof (cases e)
    case (Some err)
    then show ?thesis using rs le1 ReadString_error [of LF reader line err reader1]
      by (simp add: ps)
  next
    case None
    have lt1: "length reader1 < length reader"
      using ReadString_shorter rs None by blast
    note base = rs None l_def[symmetric] lt1
    consider (empty) "l = []"
      | (simple) "l \<noteq> []" "hd l = RESP_SIMPLE_STRING \<or> hd l = RESP_ERROR"
      | (integer) "l \<noteq> []" "hd l = RESP_INTEGER"
      | (bulk) "l \<noteq> []" "hd l = RESP_BULK_STRING"
      | (array) "l \<noteq> []" "hd l = RESP_ARRAY"
      | (other) "l \<noteq> []" "hd l \<noteq> RESP_SIMPLE_STRING" "hd l \<noteq> RESP_ERROR"
          "hd l \<noteq> RESP_INTEGER" "hd l \<noteq> RESP_BULK_STRING" "hd l \<noteq> RESP_ARRAY"
      by (cases "l = []"; cases "hd l = RESP_SIMPLE_STRING"; cases "hd l = RESP_ERROR";
          cases "hd l = RESP_INTEGER"; cases "hd l = RESP_BULK_STRING";
          cases "hd l = RESP_ARRAY"; simp)
    then show ?thesis
    proof cases
      case empty
      then show ?thesis using base by (simp add: ps)
    next
      case simple
      then show ?thesis using base by (auto simp: ps Let_def)
    next
      case integer
      then show ?thesis using base
        by (cases "ParseInt (tl l)") (simp_all add: ps Let_def RESP_tags)
    next
      case bulk
      show ?thesis
      proof (cases "Atoi (tl l)")
        case (Inl err)
        then show ?thesis using bulk base by (simp add: ps Let_def RESP_tags)
      next
        case (Inr len)
        obtain data e2 reader2 where rf: "ReadFull (nat len) reader1 = ((data, e2), reader2)"
          by (metis prod.exhaust)
        obtain t e3 reader3 where rs2: "ReadString LF reader2 = ((t, e3), reader3)"
          by (metis prod.exhaust)
        have le2: "length reader2 < length reader" "length reader3 < length reader"
          using ReadFull_le[OF rf] ReadString_le[OF rs2] lt1 by simp_all
        show ?thesis using bulk base Inr rf rs2 le2
          by (cases e2; cases e3) (simp_all add: ps Let_def RESP_tags)
      qed
    next
      case array
      show ?thesis
      proof (cases "Atoi (tl l)")
        case (Inl err)
        then show ?thesis using array base by (simp add: ps Let_def RESP_tags)
      next
        case (Inr cnt)
        show ?thesis
        proof (cases "cnt \<noteq> - 1 \<and> makeslice 8 cnt")
          case False
          then show ?thesis using array base Inr by (auto simp: ps Let_def RESP_tags)
        next
          case True
          have neq: "hd l \<noteq> RESP_SIMPLE_STRING" "hd l \<noteq> RESP_ERROR"
            "hd l \<noteq> RESP_INTEGER" "hd l \<noteq> RESP_BULK_STRING"
            using array by (simp_all add: RESP_tags)
          obtain res reader2 where pe: "ParseRESP_elems 0 (nat cnt) [] reader1 = (res, reader2)"
            by (metis prod.exhaust)
          have "length (snd (ParseRESP_elems 0 (nat cnt) [] reader1)) \<le> length reader1"
            using 1(2)[OF rs[symmetric] refl None l_def _ refl neq array(2)] array(1) Inr True
            by simp
          then have le2: "length reader2 < length reader" using pe lt1 by simp
          show ?thesis using array base Inr True pe le2
            by (cases res) (simp_all add: ps Let_def RESP_tags)
        qed
      qed
    next
      case other
      then show ?thesis using base by (simp add: ps Let_def)
    qed
  qed
next
  case (2 i count arr reader)
  show ?case
  proof (cases "i < count")
    case False
    then show ?thesis by (simp add: ParseRESP_elems.psimps [OF 2(1)])
  next
    case True
    obtain res r' where pr: "ParseRESP reader = (res, r')" by (metis prod.exhaust)
    have le: "length r' \<le> length reader" using 2(2)[OF True] pr by simp
    show ?thesis
    proof (cases res)
      case (Ok elem)
      have "length (snd (ParseRESP_elems (i + 1) count (arr @ [elem]) r')) \<le> length r'"
        using 2(3)[OF True pr[symmetric] Ok] .
      then show ?thesis using True pr Ok le
        by (simp add: ParseRESP_elems.psimps [OF 2(1)])
    next
      case (Err e)
      then show ?thesis using True pr le by (simp add: ParseRESP_elems.psimps [OF 2(1)])
    next
      case Panic
      then show ?thesis using True pr le by (simp add: ParseRESP_elems.psimps [OF 2(1)])
    qed
  qed
qed


lemma ParseRESP_total: "All ParseRESP_ParseRESP_elems_dom"
proof (relation "inv_image (less_than <*lex*> less_than)
    (\<lambda>x. case x of Inl r \<Rightarrow> (length r, 0)
                  | Inr (i, count, arr, r) \<Rightarrow> (length r, Suc (count - i)))", goal_cases)
  case 1
  show ?case by auto
next
  case (2 reader x y xa ya xb xc b)
  then have "ReadString LF reader = ((xa, None), y)" by simp
  from ReadString_shorter [OF this] show ?case by simp
next
  case (3 i count arr reader)
  show ?case by simp
next
  case (4 i count arr reader x y x1)
  then have "length y \<le> length reader"
    using ParseRESP_dom_le(1) [of reader] by (metis snd_conv)
  with 4 show ?case by auto
qed

termination ParseRESP
  by (rule ParseRESP_total)

lemma ParseRESP_le: "ParseRESP r = (res, r') \<Longrightarrow> length r' \<le> length r"
  using ParseRESP_dom_le(1) [of r] ParseRESP_total by auto

lemma ParseRESP_shorter:
  "ParseRESP r = (res, r') \<Longrightarrow> res \<noteq> Err EOF \<Longrightarrow> length r' < length r"
  using ParseRESP_dom_le(1) [of r] ParseRESP_total by auto

lemma ParseRESP_elems_le:
  "ParseRESP_elems i count arr r = (res, r') \<Longrightarrow> length r' \<le> length r"
  using ParseRESP_dom_le(2) [of i count arr r] ParseRESP_total by auto

declare ParseRESP.simps [simp del] ParseRESP_elems.simps [simp del]

section \<open>Error messages\<close>

text \<open>
  \<open>err.Error()\<close>. strconv quotes the text it failed to parse with \<open>strconv.Quote\<close>,
  whose escaping rests on Unicode's tables of printable characters: the function is a
  parameter \<open>quote\<close> of the model. The verb \<open>%c\<close> applied to a byte writes the code
  point of that value in UTF-8, two bytes from U+0080 on; \<open>%d\<close> writes the index in
  decimal.
\<close>

definition fmt_c :: "char \<Rightarrow> string" where
  "fmt_c c =
    (if (of_char c :: nat) < 128 then [c]
     else [char_of (192 + (of_char c :: nat) div 64), char_of (128 + (of_char c :: nat) mod 64)])"

fun Error_msg :: "(string \<Rightarrow> string) \<Rightarrow> error \<Rightarrow> string" where
  "Error_msg quote EOF = ''EOF''"
| "Error_msg quote ErrUnexpectedEOF = ''unexpected EOF''"
| "Error_msg quote (NumError fn num e) =
    ''strconv.'' @ fn @ '': parsing '' @ quote num @ '': '' @
      (case e of ErrSyntax \<Rightarrow> ''invalid syntax'' | ErrRange \<Rightarrow> ''value out of range'')"
| "Error_msg quote EmptyLine = ''empty line''"
| "Error_msg quote (InvalidInteger err) = ''invalid integer: '' @ Error_msg quote err"
| "Error_msg quote (InvalidBulkLength err) =
    ''invalid bulk string length: '' @ Error_msg quote err"
| "Error_msg quote (BulkRead err) = ''failed to read bulk string: '' @ Error_msg quote err"
| "Error_msg quote (BulkTerminator err) =
    ''failed to read bulk string terminator: '' @ Error_msg quote err"
| "Error_msg quote (InvalidArrayLength err) = ''invalid array length: '' @ Error_msg quote err"
| "Error_msg quote (ArrayElement i err) =
    ''failed to parse array element '' @ digits i @ '': '' @ Error_msg quote err"
| "Error_msg quote (UnknownType c) = ''unknown RESP type: '' @ fmt_c c"

section \<open>strings.ToUpper\<close>

text \<open>
  On a string of ASCII bytes \<open>strings.ToUpper\<close> maps \<open>a..z\<close> to \<open>A..Z\<close> and
  leaves every other byte. A string with a byte from \<open>0x80\<close> on goes through
  \<open>strings.Map(unicode.ToUpper, s)\<close>, which rests on Unicode's case tables: that
  function is a parameter \<open>upper\<close> of the model.
\<close>

definition is_lower :: "char \<Rightarrow> bool" where
  "is_lower c \<longleftrightarrow> 97 \<le> (of_char c :: nat) \<and> (of_char c :: nat) \<le> 122"

definition ascii_upper :: "char \<Rightarrow> char" where
  "ascii_upper c = (if is_lower c then char_of ((of_char c :: nat) - 32) else c)"

definition ToUpper :: "(string \<Rightarrow> string) \<Rightarrow> string \<Rightarrow> string" where
  "ToUpper upper s =
    (let isASCII = (\<forall>c \<in> set s. (of_char c :: nat) < 128);
         hasLower = (\<exists>c \<in> set s. is_lower c)
     in if isASCII then (if \<not> hasLower then s else map ascii_upper s)
        else upper s)"

section \<open>The server: store and command handlers\<close>

text \<open>
  The store is the map of \<open>RedisServer\<close>. A handler that reads or writes it takes the
  store and, when it writes, returns the new one; the lock around the access has no
  counterpart in a sequential model. \<open>error_reply\<close> is the three lines that build an
  Error value, which every handler repeats.
\<close>

type_synonym store = "string \<rightharpoonup> string"

definition error_reply :: "string \<Rightarrow> RESPValue" where
  "error_reply msg = set_Str msg (NewRESPValue RESP_ERROR)"

definition handlePing :: RESPValue where
  "handlePing = set_Str ''PONG'' (NewRESPValue RESP_SIMPLE_STRING)"

definition handleEcho :: "RESPValue \<Rightarrow> RESPValue" where
  "handleEcho command =
    (if length (Array command) < 2
     then error_reply ''ERR wrong number of arguments for 'echo' command''
     else if Type (Array command ! 1) \<noteq> RESP_BULK_STRING
     then error_reply ''ERR Protocol error: expected bulk string for echo argument''
     else set_Str (Str (Array command ! 1)) (NewRESPValue RESP_BULK_STRING))"

definition handleSet :: "store \<Rightarrow> RESPValue \<Rightarrow> RESPValue \<times> store" where
  "handleSet st command =
    (if length (Array command) < 3
     then (error_reply ''ERR wrong number of arguments for 'set' command'', st)
     else if Type (Array command ! 1) \<noteq> RESP_BULK_STRING
             \<or> Type (Array command ! 2) \<noteq> RESP_BULK_STRING
     then (error_reply ''ERR Protocol error: expected bulk string for key and value'', st)
     else
       let key = Str (Array command ! 1);
           value = Str (Array command ! 2)
       in (set_Str ''OK'' (NewRESPValue RESP_SIMPLE_STRING), st(key \<mapsto> value)))"

definition handleGet :: "store \<Rightarrow> RESPValue \<Rightarrow> RESPValue" where
  "handleGet st command =
    (if length (Array command) < 2
     then error_reply ''ERR wrong number of arguments for 'get' command''
     else if Type (Array command ! 1) \<noteq> RESP_BULK_STRING
     then error_reply ''ERR Protocol error: expected bulk string for key''
     else
       let key = Str (Array command ! 1)
       in case st key of
            None \<Rightarrow> set_IsNull True (NewRESPValue RESP_BULK_STRING)
          | Some value \<Rightarrow> set_Str value (NewRESPValue RESP_BULK_STRING))"

definition handleQuit :: RESPValue where
  "handleQuit = set_Str ''OK'' (NewRESPValue RESP_SIMPLE_STRING)"

definition handleInfo :: RESPValue where
  "handleInfo =
    set_Str (''# Server'' @ CRLF @ ''redis_version:0.1.0'' @ CRLF) (NewRESPValue RESP_BULK_STRING)"

definition processCommand ::
  "(string \<Rightarrow> string) \<Rightarrow> store \<Rightarrow> RESPValue \<Rightarrow> RESPValue \<times> store" where
  "processCommand upper st command =
    (if Type command \<noteq> RESP_ARRAY \<or> IsNull command
     then (error_reply ''ERR Protocol error: expected array'', st)
     else if length (Array command) = 0
     then (error_reply ''ERR empty command'', st)
     else
       let cmdValue = Array command ! 0 in
       if Type cmdValue \<noteq> RESP_BULK_STRING
       then (error_reply ''ERR Protocol error: expected bulk string for command'', st)
       else
         let cmd = ToUpper upper (Str cmdValue) in
         if cmd = ''PING'' then (handlePing, st)
         else if cmd = ''ECHO'' then (handleEcho command, st)
         else if cmd = ''SET'' then handleSet st command
         else if cmd = ''GET'' then (handleGet st command, st)
         else if cmd = ''QUIT'' then (handleQuit, st)
         else if cmd = ''INFO'' then (handleInfo, st)
         else (error_reply (''ERR unknown command '' @ [CHR 0x27] @ cmd @ [CHR 0x27]), st))"

section \<open>The connection loop\<close>

text \<open>
  \<open>serve\<close> is one turn of the loop of handleConnection, from the reader and the store
  as they stand: it ends the loop (\<open>break\<close>, after which the deferred \<open>conn.Close\<close>
  runs), or goes on with the reader as ParseRESP left it, the bytes it wrote to the
  connection and the store; a panic in ParseRESP is not recovered and takes the process
  down. The result of \<open>conn.Write\<close> is not looked at by the code.
  \<open>handleConnection\<close> runs the loop on all the bytes a client sends before it closes
  its side, and returns how the loop ended, everything written, and the store.
\<close>

datatype turn = Break | Crash | Continue string string store

definition serve ::
  "(string \<Rightarrow> string) \<Rightarrow> (string \<Rightarrow> string) \<Rightarrow> store \<Rightarrow> string \<Rightarrow> turn" where
  "serve quote upper st reader =
    (case ParseRESP reader of
       (Err err, reader') \<Rightarrow>
         if Error_msg quote err = ''EOF'' then Break
         else Continue reader'
                (SerializeRESP (error_reply (''ERR '' @ Error_msg quote err))) st
     | (Panic, reader') \<Rightarrow> Crash
     | (Ok command, reader') \<Rightarrow>
         (case processCommand upper st command of
            (response, st') \<Rightarrow> Continue reader' (SerializeRESP response) st'))"

datatype ending = Closed | Crashed

lemma serve_shorter:
  "serve quote upper st reader = Continue reader' out st' \<Longrightarrow> length reader' < length reader"
  by (auto simp: serve_def split: prod.splits result.splits if_splits
           dest!: ParseRESP_shorter)

function handleConnection ::
  "(string \<Rightarrow> string) \<Rightarrow> (string \<Rightarrow> string) \<Rightarrow> store \<Rightarrow> string \<Rightarrow> string
     \<Rightarrow> ending \<times> string \<times> store" where
  "handleConnection quote upper st reader written =
    (case serve quote upper st reader of
       Break \<Rightarrow> (Closed, written, st)
     | Crash \<Rightarrow> (Crashed, written, st)
     | Continue reader' out st' \<Rightarrow> handleConnection quote upper st' reader' (written @ out))"
  by pat_completeness auto
termination
  by (relation "measure (\<lambda>(quote, upper, st, reader, written). length reader)")
     (auto dest: serve_shorter)

declare handleConnection.simps [simp del]

section \<open>The values and texts the properties speak of\<close>

text \<open>
  Values built the way the code builds them: a fresh value of the type, then the one
  field that is set.
\<close>

definition simple :: "string \<Rightarrow> RESPValue" where
  "simple s = set_Str s (NewRESPValue RESP_SIMPLE_STRING)"

definition bulk :: "string \<Rightarrow> RESPValue" where
  "bulk s = set_Str s (NewRESPValue RESP_BULK_STRING)"

definition null_bulk :: RESPValue where
  "null_bulk = set_IsNull True (NewRESPValue RESP_BULK_STRING)"

definition request :: "RESPValue list \<Rightarrow> RESPValue" where
  "request args = set_Array args (NewRESPValue RESP_ARRAY)"

text \<open>
  A text ends in white space when the encoding of a white-space code point is a suffix
  of it; \<open>space_bytes\<close> are the bytes that occur in those encodings.
\<close>

definition ends_in_space :: "string \<Rightarrow> bool" where
  "ends_in_space s \<longleftrightarrow> (\<exists>e \<in> set white_space. suffix e s)"

definition space_bytes :: "char set" where
  "space_bytes = \<Union> (set ` set white_space)"

text \<open>
  The values of the round trip. Each carries the type tag and the one field of its type,
  as NewRESPValue and one assignment leave it. The text of a SimpleString or an Error
  holds no \<open>\n\<close> and does not end in white space; a BulkString and an Array are of a
  size that \<open>make\<close> accepts; an Array is not null, and its elements are such values
  again.
\<close>

fun well_formed :: "RESPValue \<Rightarrow> bool" where
  "well_formed (RESPValue t s n isnull arr) =
    (if t = RESP_SIMPLE_STRING \<or> t = RESP_ERROR then
       LF \<notin> set s \<and> \<not> ends_in_space s \<and> n = 0 \<and> \<not> isnull \<and> arr = []
     else if t = RESP_INTEGER then s = [] \<and> \<not> isnull \<and> arr = []
     else if t = RESP_BULK_STRING then
       n = 0 \<and> arr = [] \<and> (if isnull then s = [] else length s \<le> maxAlloc)
     else if t = RESP_ARRAY then
       s = [] \<and> n = 0 \<and> \<not> isnull \<and> length arr * 8 \<le> maxAlloc
       \<and> (\<forall>e \<in> set arr. well_formed e)
     else False)"

section \<open>Selectors of the values\<close>

lemma simple_sel [simp]:
  "Type (simple s) = RESP_SIMPLE_STRING" "Str (simple s) = s" "\<not> IsNull (simple s)"
  by (simp_all add: simple_def NewRESPValue_def)

lemma bulk_sel [simp]:
  "Type (bulk s) = RESP_BULK_STRING" "Str (bulk s) = s" "\<not> IsNull (bulk s)"
  by (simp_all add: bulk_def NewRESPValue_def)

lemma null_bulk_sel [simp]:
  "Type null_bulk = RESP_BULK_STRING" "Str null_bulk = []" "IsNull null_bulk"
  by (simp_all add: null_bulk_def NewRESPValue_def)

lemma request_sel [simp]:
  "Type (request args) = RESP_ARRAY" "Array (request args) = args" "\<not> IsNull (request args)"
  by (simp_all add: request_def NewRESPValue_def)

lemma error_reply_sel [simp]:
  "Type (error_reply msg) = RESP_ERROR" "Str (error_reply msg) = msg"
  by (simp_all add: error_reply_def NewRESPValue_def)

section \<open>The branches of ParseRESP\<close>

text \<open>
  One equation for each way through ParseRESP, from the line that was read and what
  TrimSpace left of it.
\<close>

lemma RESP_distinct [simp]:
  "RESP_SIMPLE_STRING \<noteq> RESP_ERROR" "RESP_SIMPLE_STRING \<noteq> RESP_INTEGER"
  "RESP_SIMPLE_STRING \<noteq> RESP_BULK_STRING" "RESP_SIMPLE_STRING \<noteq> RESP_ARRAY"
  "RESP_ERROR \<noteq> RESP_SIMPLE_STRING" "RESP_ERROR \<noteq> RESP_INTEGER"
  "RESP_ERROR \<noteq> RESP_BULK_STRING" "RESP_ERROR \<noteq> RESP_ARRAY"
  "RESP_INTEGER \<noteq> RESP_SIMPLE_STRING" "RESP_INTEGER \<noteq> RESP_ERROR"
  "RESP_INTEGER \<noteq> RESP_BULK_STRING" "RESP_INTEGER \<noteq> RESP_ARRAY"
  "RESP_BULK_STRING \<noteq> RESP_SIMPLE_STRING" "RESP_BULK_STRING \<noteq> RESP_ERROR"
  "RESP_BULK_STRING \<noteq> RESP_INTEGER" "RESP_BULK_STRING \<noteq> RESP_ARRAY"
  "RESP_ARRAY \<noteq> RESP_SIMPLE_STRING" "RESP_ARRAY \<noteq> RESP_ERROR"
  "RESP_ARRAY \<noteq> RESP_INTEGER" "RESP_ARRAY \<noteq> RESP_BULK_STRING"
  by (simp_all add: RESP_tags)


lemma ReadString_line:
  "d \<notin> set body \<Longrightarrow> ReadString d (body @ d # rest) = ((body @ [d], None), rest)"
  by (induction body) (auto simp: ReadString_def)




lemma ParseRESP_simple:
  assumes "ReadString LF reader = ((raw, None), reader1)" "TrimSpace raw = t # s"
    "t = RESP_SIMPLE_STRING \<or> t = RESP_ERROR"
  shows "ParseRESP reader = (Ok (set_Str s (NewRESPValue t)), reader1)"
  using assms by (auto simp: ParseRESP.simps Let_def)

lemma ParseRESP_integer:
  assumes "ReadString LF reader = ((raw, None), reader1)" "TrimSpace raw = RESP_INTEGER # s"
  shows "ParseRESP reader =
    (case ParseInt s of
       Inl err \<Rightarrow> (Err (InvalidInteger err), reader1)
     | Inr num \<Rightarrow> (Ok (set_Num (word_of_int num) (NewRESPValue RESP_INTEGER)), reader1))"
  using assms by (simp add: ParseRESP.simps Let_def)

lemma ParseRESP_bulk:
  assumes "ReadString LF reader = ((raw, None), reader1)"
    "TrimSpace raw = RESP_BULK_STRING # s"
  shows "ParseRESP reader =
    (case Atoi s of
       Inl err \<Rightarrow> (Err (InvalidBulkLength err), reader1)
     | Inr len \<Rightarrow>
         if len = - 1 then (Ok null_bulk, reader1)
         else if \<not> makeslice 1 len then (Panic, reader1)
         else
           (case ReadFull (nat len) reader1 of
              ((data, Some err), reader2) \<Rightarrow> (Err (BulkRead err), reader2)
            | ((data, None), reader2) \<Rightarrow>
                (case ReadString LF reader2 of
                   ((term, Some err), reader3) \<Rightarrow> (Err (BulkTerminator err), reader3)
                 | ((term, None), reader3) \<Rightarrow> (Ok (bulk data), reader3))))"
  unfolding null_bulk_def bulk_def using assms by (simp add: ParseRESP.simps Let_def)

lemma ParseRESP_array:
  assumes "ReadString LF reader = ((raw, None), reader1)" "TrimSpace raw = RESP_ARRAY # s"
  shows "ParseRESP reader =
    (case Atoi s of
       Inl err \<Rightarrow> (Err (InvalidArrayLength err), reader1)
     | Inr count \<Rightarrow>
         if count = - 1 then (Ok (set_IsNull True (NewRESPValue RESP_ARRAY)), reader1)
         else if \<not> makeslice 8 count then (Panic, reader1)
         else
           (case ParseRESP_elems 0 (nat count) [] reader1 of
              (Ok elems, reader2) \<Rightarrow> (Ok (request elems), reader2)
            | (Err err, reader2) \<Rightarrow> (Err err, reader2)
            | (Panic, reader2) \<Rightarrow> (Panic, reader2)))"
  unfolding request_def using assms by (simp add: ParseRESP.simps Let_def)





section \<open>What TrimSpace does to a line\<close>

text \<open>
  A line that begins with a byte that is no part of white space keeps that byte, and
  loses at its end the line terminator and all white space before it.
\<close>

lemma space_suffix_None: "space_suffix s = None \<longleftrightarrow> \<not> ends_in_space s"
  by (auto simp: space_suffix_def ends_in_space_def find_None_iff)

lemma TrimRightSpace_id: "\<not> ends_in_space s \<Longrightarrow> TrimRightSpace s = s"
  by (simp add: TrimRightSpace.simps [of s] space_suffix_None [symmetric])

lemma TrimRightSpace_clean: "\<not> ends_in_space (TrimRightSpace s)"
proof (induction s rule: TrimRightSpace.induct)
  case (1 s)
  show ?case
  proof (cases "space_suffix s")
    case None
    then have "\<not> ends_in_space s" by (simp add: space_suffix_None)
    with None show ?thesis
      by (simp add: TrimRightSpace.simps [of s])
  next
    case (Some e)
    with 1 show ?thesis by (simp add: TrimRightSpace.simps [of s])
  qed
qed

lemma TrimRightSpace_prefix: "prefix (TrimRightSpace s) s"
proof (induction s rule: TrimRightSpace.induct)
  case (1 s)
  show ?case
  proof (cases "space_suffix s")
    case None
    then show ?thesis by (simp add: TrimRightSpace.simps [of s])
  next
    case (Some e)
    have "prefix (take (length s - length e) s) s" by (rule take_is_prefix)
    with 1 [OF Some] have "prefix (TrimRightSpace (take (length s - length e) s)) s"
      by (rule prefix_order.trans)
    with Some show ?thesis
      by (simp add: TrimRightSpace.simps [of s])
  qed
qed

lemma space_prefix_Cons:
  assumes "c \<notin> space_bytes"
  shows "space_prefix (c # s) = None"
proof -
  have "\<not> prefix e (c # s)" if "e \<in> set white_space" for e
  proof
    assume p: "prefix e (c # s)"
    have "e \<noteq> []" using that by (rule white_space_nonempty)
    then obtain d ds where "e = d # ds" by (cases e) auto
    with p have "d = c" by simp
    with \<open>e = d # ds\<close> that assms show False by (auto simp: space_bytes_def)
  qed
  then show ?thesis by (auto simp: space_prefix_def find_None_iff)
qed

lemma TrimLeftSpace_Cons: "c \<notin> space_bytes \<Longrightarrow> TrimLeftSpace (c # s) = c # s"
  by (simp add: TrimLeftSpace.simps [of "c # s"] space_prefix_Cons)

lemma space_suffix_Cons:
  assumes "c \<notin> space_bytes"
  shows "space_suffix (c # s) = space_suffix s"
  unfolding space_suffix_def
proof (rule find_cong [OF refl])
  fix e assume e: "e \<in> set white_space"
  have "e \<noteq> c # s" using e assms by (auto simp: space_bytes_def)
  then show "suffix e (c # s) = suffix e s" by (simp add: suffix_Cons)
qed

lemma TrimRightSpace_Cons:
  "c \<notin> space_bytes \<Longrightarrow> TrimRightSpace (c # s) = c # TrimRightSpace s"
proof (induction s rule: TrimRightSpace.induct)
  case (1 s)
  show ?case
  proof (cases "space_suffix s")
    case None
    then show ?thesis using 1(2)
      by (simp add: TrimRightSpace.simps [of s] TrimRightSpace.simps [of "c # s"]
            space_suffix_Cons)
  next
    case (Some e)
    then have "length e \<le> length s"
      using space_suffix_Some suffix_length_le by blast
    then have "take (length (c # s) - length e) (c # s) = c # take (length s - length e) s"
      by (simp add: Suc_diff_le)
    with 1 Some show ?thesis
      by (simp add: TrimRightSpace.simps [of s] TrimRightSpace.simps [of "c # s"]
            space_suffix_Cons)
  qed
qed

lemma TrimRightSpace_snoc_LF: "TrimRightSpace (s @ [LF]) = TrimRightSpace s"
proof -
  have "space_suffix (s @ [LF]) = Some [LF]"
    by (simp add: space_suffix_def white_space_def LF_def)
  then show ?thesis by (simp add: TrimRightSpace.simps [of "s @ [LF]"])
qed

lemma TrimRightSpace_snoc_CR: "TrimRightSpace (s @ [CR]) = TrimRightSpace s"
proof -
  have "space_suffix (s @ [CR]) = Some [CR]"
    by (simp add: space_suffix_def white_space_def CR_def)
  then show ?thesis by (simp add: TrimRightSpace.simps [of "s @ [CR]"])
qed

lemma TrimSpace_line:
  "c \<notin> space_bytes \<Longrightarrow> TrimSpace (c # body @ [LF]) = c # TrimRightSpace body"
  using TrimRightSpace_snoc_LF [of "c # body"]
  by (simp add: TrimSpace_def TrimLeftSpace_Cons TrimRightSpace_Cons)

lemma tags_not_space [simp]:
  "RESP_SIMPLE_STRING \<notin> space_bytes" "RESP_ERROR \<notin> space_bytes"
  "RESP_INTEGER \<notin> space_bytes" "RESP_BULK_STRING \<notin> space_bytes"
  "RESP_ARRAY \<notin> space_bytes"
  by (simp_all add: space_bytes_def white_space_def RESP_tags)

lemma tags_not_LF [simp]:
  "RESP_SIMPLE_STRING \<noteq> LF" "RESP_ERROR \<noteq> LF" "RESP_INTEGER \<noteq> LF"
  "RESP_BULK_STRING \<noteq> LF" "RESP_ARRAY \<noteq> LF"
  by (simp_all add: LF_def RESP_tags)

lemma ReadString_tagged_line:
  assumes "t \<noteq> LF" "LF \<notin> set body"
  shows "ReadString LF (t # body @ LF # rest) = ((t # body @ [LF], None), rest)"
  using ReadString_line [of LF "t # body" rest] assms by simp

section \<open>Decimal text read back\<close>

text \<open>
  \<open>ParseInt\<close> and \<open>Atoi\<close> return the number that \<open>FormatInt\<close> and \<open>Itoa\<close>
  wrote, and the text of a number holds no \<open>\n\<close> and does not end in white space.
\<close>

lemma digit_char_props:
  assumes "d < 10"
  shows "is_digit (digit_char d)" "digit_val (digit_char d) = d"
  using assms by (simp_all add: is_digit_def digit_val_def digit_char_def)

lemma digits_nonempty: "digits n \<noteq> []"
  by (subst digits.simps) simp

lemma digits_are_digits: "c \<in> set (digits n) \<Longrightarrow> is_digit c"
proof (induction n rule: digits.induct)
  case (1 n)
  then show ?case
    by (subst (asm) (2) digits.simps) (auto simp: digit_char_props split: if_splits)
qed

lemma ParseUint_loop_digits:
  "acc * 10 ^ length (digits n) + n \<le> 2 ^ 64 - 1 \<Longrightarrow>
   ParseUint_loop acc (digits n @ cs) = ParseUint_loop (acc * 10 ^ length (digits n) + n) cs"
proof (induction n arbitrary: acc cs rule: digits.induct)
  case (1 n)
  show ?case
  proof (cases "n < 10")
    case True
    then have d: "digits n = [digit_char n]" by (subst digits.simps) simp
    with 1(2) True show ?thesis by (simp add: digit_char_props)
  next
    case False
    then have d: "digits n = digits (n div 10) @ [digit_char (n mod 10)]"
      by (subst digits.simps) simp
    define k where "k = length (digits (n div 10))"
    define A where "A = acc * 10 ^ k + n div 10"
    define B where "B = acc * 10 ^ Suc k + n"
    have len: "length (digits n) = Suc k" by (simp add: d k_def)
    have bound: "B \<le> 2 ^ 64 - 1" using 1(2) by (simp add: B_def len)
    have eq: "A * 10 + n mod 10 = B"
      by (simp add: A_def B_def algebra_simps)
    have "A \<le> A * 10 + n mod 10" by simp
    with eq bound have small: "A \<le> 2 ^ 64 - 1" by simp
    have "ParseUint_loop acc (digits n @ cs)
        = ParseUint_loop acc (digits (n div 10) @ digit_char (n mod 10) # cs)"
      by (simp add: d)
    also have "\<dots> = ParseUint_loop A (digit_char (n mod 10) # cs)"
      using 1(1) [OF False small [unfolded A_def k_def]] by (simp add: A_def k_def)
    also have "\<dots> = ParseUint_loop B cs"
      using bound eq by (simp add: digit_char_props)
    finally show ?thesis by (simp add: B_def len)
  qed
qed

lemma ParseUint_digits: "n \<le> 2 ^ 64 - 1 \<Longrightarrow> ParseUint (digits n) = Inr n"
  using ParseUint_loop_digits [of 0 n "[]"] by (simp add: ParseUint_def digits_nonempty)

lemma hd_digits: "hd (digits n) \<noteq> CHR ''+''" "hd (digits n) \<noteq> CHR ''-''"
proof -
  have "is_digit (hd (digits n))"
    using digits_are_digits [of "hd (digits n)" n] digits_nonempty [of n] by simp
  then show "hd (digits n) \<noteq> CHR ''+''" "hd (digits n) \<noteq> CHR ''-''"
    by (auto simp: is_digit_def)
qed

lemma ParseInt_as_FormatInt:
  assumes "- (2 ^ 63) \<le> i" "i < 2 ^ 63"
  shows "ParseInt_as fn (FormatInt i) = Inr i"
proof (cases "i < 0")
  case True
  then have "nat (- i) \<le> 2 ^ 63" using assms by (simp add: nat_le_iff)
  then have "nat (- i) \<le> 2 ^ 64 - 1" by simp
  from ParseUint_digits [OF this] True \<open>nat (- i) \<le> 2 ^ 63\<close> show ?thesis
    by (simp add: ParseInt_as_def FormatInt_def)
next
  case False
  then have "nat i < 2 ^ 63" using assms by (simp add: nat_less_iff)
  then have "nat i \<le> 2 ^ 64 - 1" by simp
  from ParseUint_digits [OF this] False \<open>nat i < 2 ^ 63\<close> show ?thesis
    by (simp add: ParseInt_as_def FormatInt_def digits_nonempty hd_digits)
qed

lemma Atoi_Itoa: "n < 2 ^ 63 \<Longrightarrow> Atoi (Itoa n) = Inr (int n)"
  using ParseInt_as_FormatInt [of "int n" "''Atoi''"] by (simp add: Atoi_def Itoa_def)

lemma ParseInt_FormatInt_sint: "ParseInt (FormatInt (sint (w :: 64 word))) = Inr (sint w)"
  using ParseInt_as_FormatInt [of "sint w" "''ParseInt''"] sint_range_size [of w]
  by (simp add: ParseInt_def word_size)

lemma is_digit_not_space: "is_digit c \<Longrightarrow> c \<notin> space_bytes \<and> c \<noteq> LF"
  by (auto simp: is_digit_def space_bytes_def white_space_def LF_def)

lemma ends_in_space_last: "ends_in_space s \<Longrightarrow> s \<noteq> [] \<and> last s \<in> space_bytes"
proof -
  assume "ends_in_space s"
  then obtain e where e: "e \<in> set white_space" "suffix e s"
    by (auto simp: ends_in_space_def)
  then have ne: "e \<noteq> []" using white_space_nonempty by blast
  with e(2) have "s \<noteq> []" "last s = last e" by (auto simp: suffix_def)
  moreover have "last e \<in> set e" using ne by simp
  ultimately show ?thesis using e(1) by (auto simp: space_bytes_def)
qed

lemma FormatInt_chars:
  "LF \<notin> set (FormatInt i)" "\<not> ends_in_space (FormatInt i)"
proof -
  have m: "CHR ''-'' \<noteq> LF" by (simp add: LF_def)
  show "LF \<notin> set (FormatInt i)"
    using is_digit_not_space digits_are_digits m by (auto simp: FormatInt_def)
  have "last (FormatInt i) = last (digits (nat \<bar>i\<bar>))" "FormatInt i \<noteq> []"
    by (auto simp: FormatInt_def digits_nonempty)
  moreover have "is_digit (last (digits (nat \<bar>i\<bar>)))"
    using digits_are_digits digits_nonempty last_in_set by blast
  ultimately show "\<not> ends_in_space (FormatInt i)"
    using ends_in_space_last is_digit_not_space by metis
qed

section \<open>Encoding the null Array\<close>

text \<open>
  C3. The null Array, as ParseRESP builds it when it decodes \<open>*-1\<close> (type tag \<open>*\<close>,
  \<open>IsNull\<close> set, no elements), is serialized as \<open>*0\<close> and the line terminator:
  the Array branch of SerializeRESP never looks at \<open>IsNull\<close>, so the output is that of
  the empty Array and not \<open>*-1\<close>.
\<close>

theorem SerializeRESP_null_array:
  "SerializeRESP (set_IsNull True (NewRESPValue RESP_ARRAY)) = ''*0'' @ CRLF
   \<and> SerializeRESP (set_IsNull True (NewRESPValue RESP_ARRAY)) \<noteq> ''*-1'' @ CRLF
   \<and> SerializeRESP (set_IsNull True (NewRESPValue RESP_ARRAY))
       = SerializeRESP (NewRESPValue RESP_ARRAY)
   \<and> ParseRESP (''*-1'' @ CRLF) = (Ok (set_IsNull True (NewRESPValue RESP_ARRAY)), [])"
  by code_simp

section \<open>The dispatcher\<close>

text \<open>
  C4. ECHO with too few arguments is refused, but ECHO with more than one is not.
  When the request is a non-null Array whose first element is a BulkString that
  upper-cases to \<open>ECHO\<close>: with no further element the reply is the Error
  "wrong number of arguments for 'echo' command"; with a first argument that is not a
  BulkString it is the Error "expected bulk string for echo argument"; otherwise it is a
  non-null BulkString carrying the text of the first argument, whatever elements follow
  it. The store is left as it was.
\<close>

theorem processCommand_echo:
  assumes "Type command = RESP_ARRAY" and "\<not> IsNull command"
    and "Array command = name # args"
    and "Type name = RESP_BULK_STRING" and "ToUpper upper (Str name) = ''ECHO''"
  shows "processCommand upper st command =
    (if args = [] then error_reply ''ERR wrong number of arguments for 'echo' command''
     else if Type (hd args) \<noteq> RESP_BULK_STRING
     then error_reply ''ERR Protocol error: expected bulk string for echo argument''
     else bulk (Str (hd args)), st)"
  using assms by (cases args) (simp_all add: processCommand_def handleEcho_def bulk_def [symmetric])

theorem processCommand_echo_witness:
  "Type (request [bulk ''echo'', bulk ''hello'', bulk ''more'']) = RESP_ARRAY
   \<and> \<not> IsNull (request [bulk ''echo'', bulk ''hello'', bulk ''more''])
   \<and> Array (request [bulk ''echo'', bulk ''hello'', bulk ''more''])
       = bulk ''echo'' # [bulk ''hello'', bulk ''more'']
   \<and> Type (bulk ''echo'') = RESP_BULK_STRING
   \<and> ToUpper (\<lambda>s. s) (Str (bulk ''echo'')) = ''ECHO''
   \<and> processCommand (\<lambda>s. s) Map.empty (request [bulk ''echo'', bulk ''hello'', bulk ''more''])
       = (bulk ''hello'', Map.empty)"
proof -
  have up: "ToUpper (\<lambda>s. s) (Str (bulk ''echo'')) = ''ECHO''"
    by code_simp
  show ?thesis
    using up processCommand_echo [of "request [bulk ''echo'', bulk ''hello'', bulk ''more'']"
        "bulk ''echo''" "[bulk ''hello'', bulk ''more'']" "\<lambda>s. s" Map.empty]
    by simp
qed

text \<open>
  The claim as it stands fails: ECHO with two arguments is answered with the first
  one, not with an arity error.
\<close>

theorem processCommand_echo_two_arguments:
  "fst (processCommand (\<lambda>s. s) Map.empty (request [bulk ''ECHO'', bulk ''a'', bulk ''b'']))
     = bulk ''a''
   \<and> Type (fst (processCommand (\<lambda>s. s) Map.empty
                 (request [bulk ''ECHO'', bulk ''a'', bulk ''b'']))) \<noteq> RESP_ERROR"
  by code_simp

text \<open>
  C6. For every store and key, when the command names upper-case to \<open>GET\<close> and
  \<open>SET\<close>: GET of a key the store does not hold is answered with the null BulkString;
  SET of the key to the empty string is answered with \<open>OK\<close> and stores it, and GET
  of the key is then answered with a BulkString that is not null and has an empty
  payload. The two replies differ, and so do their encodings.
\<close>

theorem processCommand_get_absent_or_empty:
  assumes "ToUpper upper getcmd = ''GET''" and "ToUpper upper setcmd = ''SET''"
  shows "(st k = None \<longrightarrow>
            processCommand upper st (request [bulk getcmd, bulk k]) = (null_bulk, st))
    \<and> processCommand upper st (request [bulk setcmd, bulk k, bulk []])
        = (simple ''OK'', st(k \<mapsto> []))
    \<and> processCommand upper (st(k \<mapsto> [])) (request [bulk getcmd, bulk k])
        = (bulk [], st(k \<mapsto> []))
    \<and> IsNull null_bulk \<and> \<not> IsNull (bulk []) \<and> Str (bulk []) = []
    \<and> null_bulk \<noteq> bulk []
    \<and> SerializeRESP null_bulk \<noteq> SerializeRESP (bulk [])"
proof -
  have "SerializeRESP null_bulk \<noteq> SerializeRESP (bulk [])"
    by code_simp
  moreover have "null_bulk \<noteq> bulk []"
    by (simp add: null_bulk_def bulk_def NewRESPValue_def)
  moreover have "st k = None \<longrightarrow>
      processCommand upper st (request [bulk getcmd, bulk k]) = (null_bulk, st)"
    using assms by (simp add: processCommand_def handleGet_def Let_def null_bulk_def [symmetric])
  moreover have "processCommand upper st (request [bulk setcmd, bulk k, bulk []])
      = (simple ''OK'', st(k \<mapsto> []))"
    using assms by (simp add: processCommand_def handleSet_def Let_def simple_def [symmetric])
  moreover have "processCommand upper (st(k \<mapsto> [])) (request [bulk getcmd, bulk k])
      = (bulk [], st(k \<mapsto> []))"
    using assms by (simp add: processCommand_def handleGet_def Let_def bulk_def [symmetric])
  ultimately show ?thesis
    by simp
qed

theorem processCommand_get_absent_or_empty_witness:
  "ToUpper (\<lambda>s. s) ''get'' = ''GET'' \<and> ToUpper (\<lambda>s. s) ''Set'' = ''SET''
   \<and> (Map.empty ''k'' :: string option) = None
   \<and> processCommand (\<lambda>s. s) Map.empty (request [bulk ''get'', bulk ''k''])
       = (null_bulk, Map.empty)
   \<and> processCommand (\<lambda>s. s) [''k'' \<mapsto> []] (request [bulk ''get'', bulk ''k''])
       = (bulk [], [''k'' \<mapsto> []])"
proof -
  have up: "ToUpper (\<lambda>s. s) ''get'' = ''GET''" "ToUpper (\<lambda>s. s) ''Set'' = ''SET''"
    by code_simp+
  show ?thesis
    using up processCommand_get_absent_or_empty [OF up, of Map.empty "''k''"]
    by simp
qed

section \<open>The connection loop and its errors\<close>

text \<open>
  C2. A client sends QUIT and then PING and closes its side. The turn of the loop that
  reads QUIT writes \<open>+OK\<close> and goes on with the reader at the PING request: the loop
  has no test for the command name. PING is then read and answered with \<open>+PONG\<close> on
  the same connection, which ends only at the end of the stream.
\<close>

theorem handleConnection_serves_after_quit:
  "(case serve quote upper Map.empty
           (''*1'' @ CRLF @ ''$4'' @ CRLF @ ''QUIT'' @ CRLF
            @ ''*1'' @ CRLF @ ''$4'' @ CRLF @ ''PING'' @ CRLF) of
      Continue reader' out st' \<Rightarrow>
        reader' = ''*1'' @ CRLF @ ''$4'' @ CRLF @ ''PING'' @ CRLF \<and> out = ''+OK'' @ CRLF
    | Break \<Rightarrow> False
    | Crash \<Rightarrow> False)
   \<and> fst (snd (handleConnection quote upper Map.empty
           (''*1'' @ CRLF @ ''$4'' @ CRLF @ ''QUIT'' @ CRLF
            @ ''*1'' @ CRLF @ ''$4'' @ CRLF @ ''PING'' @ CRLF) []))
       = ''+OK'' @ CRLF @ ''+PONG'' @ CRLF"
  by code_simp



section \<open>Lengths that are negative\<close>

text \<open>
  C10. A BulkString header or an Array header with the length \<open>-2\<close> makes ParseRESP
  panic: only \<open>-1\<close> is tested before the length goes to \<open>make\<close>, which panics on a
  negative length. The call returns neither a value nor an error.
\<close>

theorem ParseRESP_negative_length_panics:
  "ParseRESP (''$-2'' @ CRLF) = (Panic, []) \<and> ParseRESP (''*-2'' @ CRLF) = (Panic, [])
   \<and> fst (handleConnection quote upper Map.empty (''$-2'' @ CRLF) []) = Crashed"
  by code_simp

section \<open>Lines and payloads\<close>

text \<open>
  C7. For a line that begins with the tag \<open>+\<close> or \<open>-\<close>, ParseRESP returns the
  value of that type whose text is the remainder of the line with all its trailing white
  space removed, and leaves the reader after the line. What is removed is any run of
  white-space code points at the end (the text returned is a prefix of the remainder and
  does not end in white space); when the remainder is a text that does not end in white
  space followed by one \<open>\r\<close>, the text returned is exactly that text.
\<close>

theorem ParseRESP_simple_line:
  assumes "t = RESP_SIMPLE_STRING \<or> t = RESP_ERROR" and "LF \<notin> set body"
  shows "ParseRESP (t # body @ LF # rest)
           = (Ok (set_Str (TrimRightSpace body) (NewRESPValue t)), rest)
    \<and> prefix (TrimRightSpace body) body
    \<and> \<not> ends_in_space (TrimRightSpace body)
    \<and> (\<forall>msg. body = msg @ [CR] \<and> \<not> ends_in_space msg \<longrightarrow> TrimRightSpace body = msg)"
proof -
  have t: "t \<noteq> LF" "t \<notin> space_bytes"
    using assms(1) tags_not_LF(1,2) tags_not_space(1,2) by metis+
  have "ParseRESP (t # body @ LF # rest)
      = (Ok (set_Str (TrimRightSpace body) (NewRESPValue t)), rest)"
    by (rule ParseRESP_simple [OF ReadString_tagged_line [OF t(1) assms(2)]
          TrimSpace_line [OF t(2)] assms(1)])
  moreover have "TrimRightSpace body = msg" if "body = msg @ [CR]" "\<not> ends_in_space msg"
    for msg
    using that by (simp add: TrimRightSpace_snoc_CR TrimRightSpace_id)
  ultimately show ?thesis
    using TrimRightSpace_prefix TrimRightSpace_clean by blast
qed

theorem ParseRESP_simple_line_witness:
  "(RESP_ERROR = RESP_SIMPLE_STRING \<or> RESP_ERROR = RESP_ERROR)
   \<and> LF \<notin> set (''ERR  no'' @ [CR])
   \<and> \<not> ends_in_space ''ERR  no''
   \<and> ParseRESP (RESP_ERROR # (''ERR  no'' @ [CR]) @ LF # ''+OK'')
       = (Ok (error_reply ''ERR  no''), ''+OK'')"
proof -
  have h: "LF \<notin> set (''ERR  no'' @ [CR])" "\<not> ends_in_space ''ERR  no''"
    by code_simp+
  show ?thesis
    using h ParseRESP_simple_line [of RESP_ERROR "''ERR  no'' @ [CR]" "''+OK''"]
    by (simp add: error_reply_def)
qed

text \<open>
  The claim as it stands fails: a space before the line terminator is removed as well.
\<close>

theorem ParseRESP_simple_line_trailing_space:
  "ParseRESP (''+OK '' @ CRLF) = (Ok (simple ''OK''), []) \<and> ''OK'' \<noteq> ''OK ''"
  by code_simp




section \<open>Encoding and decoding again\<close>

lemma maxAlloc_int: "n \<le> maxAlloc \<Longrightarrow> n < 2 ^ 63"
  by (simp add: maxAlloc_def)

lemma header_line:
  assumes "t \<noteq> LF" "t \<notin> space_bytes" "LF \<notin> set h" "\<not> ends_in_space h"
  shows "ReadString LF (t # h @ CRLF @ rest) = ((t # (h @ [CR]) @ [LF], None), rest)"
    and "TrimSpace (t # (h @ [CR]) @ [LF]) = t # h"
proof -
  have "LF \<notin> set (h @ [CR])" using assms(3) by (simp add: LF_def CR_def)
  from ReadString_tagged_line [OF assms(1) this, of rest]
  show "ReadString LF (t # h @ CRLF @ rest) = ((t # (h @ [CR]) @ [LF], None), rest)"
    by (simp add: CRLF_def)
  show "TrimSpace (t # (h @ [CR]) @ [LF]) = t # h"
    using TrimSpace_line [OF assms(2), of "h @ [CR]"] assms(4)
    by (simp add: TrimRightSpace_snoc_CR TrimRightSpace_id)
qed

lemma Itoa_chars: "LF \<notin> set (Itoa n)" "\<not> ends_in_space (Itoa n)"
  by (simp_all add: Itoa_def FormatInt_chars)

lemma ParseRESP_elems_roundtrip:
  assumes "\<And>e rest. e \<in> set arr \<Longrightarrow> ParseRESP (SerializeRESP e @ rest) = (Ok e, rest)"
  shows "ParseRESP_elems i (i + length arr) acc (concat (map SerializeRESP arr) @ rest)
    = (Ok (acc @ arr), rest)"
  using assms
proof (induction arr arbitrary: i acc)
  case Nil
  then show ?case by (simp add: ParseRESP_elems.simps)
next
  case (Cons e es)
  have "ParseRESP_elems (i + 1) ((i + 1) + length es) (acc @ [e])
      (concat (map SerializeRESP es) @ rest) = (Ok ((acc @ [e]) @ es), rest)"
    by (rule Cons.IH) (simp add: Cons.prems)
  then show ?case
    using Cons.prems [of e "concat (map SerializeRESP es) @ rest"]
    by (simp add: ParseRESP_elems.simps [of i])
qed

text \<open>
  C1. Decoding what SerializeRESP wrote for such a value returns the value itself, with
  its type, its text or number, the null mark of a BulkString and, for an Array, every
  element in order at every depth, and leaves the reader exactly after the encoding.
\<close>

theorem ParseRESP_SerializeRESP:
  "well_formed v \<Longrightarrow> ParseRESP (SerializeRESP v @ rest) = (Ok v, rest)"
proof (induction v arbitrary: rest)
  case (RESPValue t s n isnull arr)
  note wf = RESPValue.prems
  consider (simple) "t = RESP_SIMPLE_STRING \<or> t = RESP_ERROR" | (integer) "t = RESP_INTEGER"
    | (bulk) "t = RESP_BULK_STRING" | (array) "t = RESP_ARRAY"
    using wf by (auto split: if_splits)
  then show ?case
  proof cases
    case simple
    then have t: "t \<noteq> LF" "t \<notin> space_bytes"
      using tags_not_LF(1,2) tags_not_space(1,2) by metis+
    from simple wf have s: "LF \<notin> set s" "\<not> ends_in_space s"
      and rest: "n = 0" "\<not> isnull" "arr = []" by auto
    have "ParseRESP (t # s @ CRLF @ rest) = (Ok (set_Str s (NewRESPValue t)), rest)"
      by (rule ParseRESP_simple [OF header_line(1) [OF t s] header_line(2) [OF t s] simple])
    then show ?thesis using simple rest by (auto simp: NewRESPValue_def)
  next
    case integer
    from integer wf have rest: "s = []" "\<not> isnull" "arr = []" by auto
    have "ParseRESP (RESP_INTEGER # FormatInt (sint n) @ CRLF @ rest)
        = (Ok (set_Num (word_of_int (sint n)) (NewRESPValue RESP_INTEGER)), rest)"
      using ParseRESP_integer [OF
          header_line(1) [OF tags_not_LF(3) tags_not_space(3) FormatInt_chars]
          header_line(2) [OF tags_not_LF(3) tags_not_space(3) FormatInt_chars],
          of "sint n" rest]
      by (simp add: ParseInt_FormatInt_sint)
    then show ?thesis using integer rest by (simp add: NewRESPValue_def)
  next
    case bulk
    from bulk wf have rest: "n = 0" "arr = []"
      and s: "if isnull then s = [] else length s \<le> maxAlloc" by auto
    show ?thesis
    proof (cases isnull)
      case True
      have m: "LF \<notin> set ''-1''" "\<not> ends_in_space ''-1''" "Atoi ''-1'' = Inr (- 1)"
        by code_simp+
      have "ParseRESP (RESP_BULK_STRING # ''-1'' @ CRLF @ rest) = (Ok null_bulk, rest)"
        using ParseRESP_bulk [OF
            header_line(1) [OF tags_not_LF(4) tags_not_space(4) m(1,2)]
            header_line(2) [OF tags_not_LF(4) tags_not_space(4) m(1,2)], of rest]
        by (simp add: m(3))
      then show ?thesis using bulk rest s True
        by (simp add: null_bulk_def NewRESPValue_def)
    next
      case False
      then have len: "length s \<le> maxAlloc" using s by simp
      have a: "Atoi (Itoa (length s)) = Inr (int (length s))"
        by (rule Atoi_Itoa [OF maxAlloc_int [OF len]])
      have rf: "ReadFull (length s) (s @ CRLF @ rest) = ((s, None), CRLF @ rest)"
        by (simp add: ReadFull_def)
      have rs: "ReadString LF (CRLF @ rest) = ((CRLF, None), rest)"
        using ReadString_line [of LF "[CR]" rest] by (simp add: CRLF_def LF_def CR_def)
      have "ParseRESP (RESP_BULK_STRING # Itoa (length s) @ CRLF @ s @ CRLF @ rest)
          = (Ok (bulk s), rest)"
        using ParseRESP_bulk [OF
            header_line(1) [OF tags_not_LF(4) tags_not_space(4) Itoa_chars]
            header_line(2) [OF tags_not_LF(4) tags_not_space(4) Itoa_chars],
            of "length s" "s @ CRLF @ rest"] len
        by (simp add: a rf rs makeslice_def)
      then show ?thesis using bulk rest False
        by (simp add: bulk_def NewRESPValue_def)
    qed
  next
    case array
    from array wf have rest: "s = []" "n = 0" "\<not> isnull"
      and len: "length arr * 8 \<le> maxAlloc" and elems: "\<forall>e \<in> set arr. well_formed e"
      by auto
    have "length arr \<le> maxAlloc" using len by simp
    then have a: "Atoi (Itoa (length arr)) = Inr (int (length arr))"
      by (rule Atoi_Itoa [OF maxAlloc_int])
    have el: "ParseRESP_elems 0 (length arr) [] (concat (map SerializeRESP arr) @ rest)
        = (Ok arr, rest)"
      using ParseRESP_elems_roundtrip [of arr 0 "[]" rest] RESPValue.IH elems by simp
    have "ParseRESP (RESP_ARRAY # Itoa (length arr) @ CRLF @ concat (map SerializeRESP arr) @ rest)
        = (Ok (request arr), rest)"
      using ParseRESP_array [OF
          header_line(1) [OF tags_not_LF(5) tags_not_space(5) Itoa_chars]
          header_line(2) [OF tags_not_LF(5) tags_not_space(5) Itoa_chars],
          of "length arr" "concat (map SerializeRESP arr) @ rest"] len
      by (simp add: a el makeslice_def)
    then show ?thesis using array rest
      by (simp add: request_def NewRESPValue_def)
  qed
qed

theorem ParseRESP_SerializeRESP_witness:
  "well_formed (request [bulk ''SET'', bulk [], null_bulk, request [], simple ''OK'',
       request [set_Num (- 42) (NewRESPValue RESP_INTEGER), error_reply ''ERR no'']])
   \<and> ParseRESP (SerializeRESP (request [bulk ''SET'', bulk [], null_bulk, request [],
         simple ''OK'', request [set_Num (- 42) (NewRESPValue RESP_INTEGER),
         error_reply ''ERR no'']]) @ ''+next'')
     = (Ok (request [bulk ''SET'', bulk [], null_bulk, request [], simple ''OK'',
         request [set_Num (- 42) (NewRESPValue RESP_INTEGER), error_reply ''ERR no'']]),
        ''+next'')"
proof -
  have wf: "well_formed (request [bulk ''SET'', bulk [], null_bulk, request [], simple ''OK'',
       request [set_Num (- 42) (NewRESPValue RESP_INTEGER), error_reply ''ERR no'']])"
    by code_simp
  show ?thesis
    using wf ParseRESP_SerializeRESP [OF wf, of "''+next''"] by simp
qed

text \<open>
  The claim as it stands fails: the SimpleString \<open>OK\<close> followed by a space comes back
  without the space.
\<close>

theorem ParseRESP_SerializeRESP_trailing_space:
  "ParseRESP (SerializeRESP (simple ''OK '')) = (Ok (simple ''OK''), [])
   \<and> simple ''OK'' \<noteq> simple ''OK ''"
  by code_simp

end
